theory Spec2Isabelle
  imports Complex_Main "HOL-Library.Sublist"
begin

section \<open>Python values used by \<^verbatim>\<open>scripts/fetch_us_market.py\<close>\<close>

text \<open>
  A Python \<^verbatim>\<open>str\<close> is a sequence of Unicode code points, and \<^verbatim>\<open>len\<close>, slicing and
  \<^verbatim>\<open>find\<close> count code points. A string is therefore a list of code points (natural
  numbers); \<open>lit\<close> turns an ASCII literal of the source into such a list.
\<close>

type_synonym pystr = "nat list"

definition lit :: "string \<Rightarrow> pystr" where
  "lit s = map of_char s"

datatype exn = KeyError | IndexError | TypeError | ZeroDivisionError | OverflowError | FeedError

subsection \<open>String methods\<close>

text \<open>
  \<^verbatim>\<open>str.strip()\<close> without argument removes the code points that CPython classifies as
  whitespace: U+0009..U+000D, U+001C..U+0020, U+0085, U+00A0, U+1680, U+2000..U+200A,
  U+2028, U+2029, U+202F, U+205F and U+3000.
\<close>

definition isspace :: "nat \<Rightarrow> bool" where
  "isspace c \<longleftrightarrow>
     (9 \<le> c \<and> c \<le> 13) \<or> (28 \<le> c \<and> c \<le> 32) \<or> c = 133 \<or> c = 160 \<or> c = 5760 \<or>
     (8192 \<le> c \<and> c \<le> 8202) \<or> c = 8232 \<or> c = 8233 \<or> c = 8239 \<or> c = 8287 \<or> c = 12288"

definition py_strip :: "pystr \<Rightarrow> pystr" where
  "py_strip s = rev (dropWhile isspace (rev (dropWhile isspace s)))"

text \<open>
  \<^verbatim>\<open>s.replace(old, new)\<close> scans from the left and replaces non-overlapping occurrences
  in one pass; the text it has produced is never scanned again. With an empty \<open>old\<close>
  Python puts \<open>new\<close> before every character and at the end.
\<close>

function py_replace :: "'a list \<Rightarrow> 'a list \<Rightarrow> 'a list \<Rightarrow> 'a list" where
  "py_replace old new [] = (if old = [] then new else [])"
| "py_replace old new (c # cs) =
     (if old = [] then new @ c # py_replace old new cs
      else if prefix old (c # cs) then new @ py_replace old new (drop (length old) (c # cs))
      else c # py_replace old new cs)"
  by pat_completeness auto
termination
  by (relation "measure (\<lambda>(old, new, s). length s)") auto

text \<open>\<^verbatim>\<open>s.find(sub)\<close>: the lowest index where \<open>sub\<close> starts, or \<open>-1\<close>.\<close>

fun py_find_from :: "'a list \<Rightarrow> 'a list \<Rightarrow> nat \<Rightarrow> int" where
  "py_find_from sub [] i = (if sub = [] then int i else - 1)"
| "py_find_from sub (c # cs) i =
     (if prefix sub (c # cs) then int i else py_find_from sub cs (Suc i))"

definition py_find :: "'a list \<Rightarrow> 'a list \<Rightarrow> int" where
  "py_find s sub = py_find_from sub s 0"

text \<open>The slice \<^verbatim>\<open>s[:n]\<close>; a negative \<open>n\<close> counts from the end.\<close>

definition py_slice_to :: "'a list \<Rightarrow> int \<Rightarrow> 'a list" where
  "py_slice_to s n = (if 0 \<le> n then take (nat n) s else take (length s - nat (- n)) s)"

text \<open>\<^verbatim>\<open>d.get(key, default)\<close> on a field that may be absent.\<close>

definition dict_get :: "'a option \<Rightarrow> 'a \<Rightarrow> 'a" where
  "dict_get field dflt = (case field of None \<Rightarrow> dflt | Some v \<Rightarrow> v)"

section \<open>The excerpt of a summary\<close>

text \<open>
  \<^verbatim>\<open>
  def safe_first_sentence(text: str, max_chars=220):
      if not text:
          return ""
      s = text.strip().replace("\n", " ").replace("  ", " ")
      dot = s.find(". ")
      if 0 < dot < max_chars:
          s = s[:dot+1]
      return s[:max_chars]
  \<close>
  The argument is \<open>None\<close> for Python's \<^verbatim>\<open>None\<close>; both \<^verbatim>\<open>None\<close> and the empty string are
  false.
\<close>

definition safe_first_sentence :: "pystr option \<Rightarrow> int \<Rightarrow> pystr" where
  "safe_first_sentence text max_chars =
     (case text of
        None \<Rightarrow> []
      | Some t \<Rightarrow>
          if t = [] then []
          else
            let s = py_replace (lit ''  '') (lit '' '')
                      (py_replace (lit ''\<newline>'') (lit '' '') (py_strip t));
                dot = py_find s (lit ''. '');
                s = (if 0 < dot \<and> dot < max_chars then py_slice_to s (dot + 1) else s)
            in py_slice_to s max_chars)"

text \<open>
  The vocabulary of the excerpting rule, independent of the code: the text after
  whitespace clean-up, and the first occurrence of a substring, computed and
  characterised (\<open>first_at\<close>).
\<close>

definition collapse_whitespace :: "pystr \<Rightarrow> pystr" where
  "collapse_whitespace t =
     py_replace (lit ''  '') (lit '' '') (py_replace (lit ''\<newline>'') (lit '' '') (py_strip t))"

fun first_occurrence :: "'a list \<Rightarrow> 'a list \<Rightarrow> nat option" where
  "first_occurrence sub [] = (if sub = [] then Some 0 else None)"
| "first_occurrence sub (c # cs) =
     (if prefix sub (c # cs) then Some 0 else map_option Suc (first_occurrence sub cs))"

definition first_at :: "'a list \<Rightarrow> 'a list \<Rightarrow> nat \<Rightarrow> bool" where
  "first_at sub s i \<longleftrightarrow>
     i \<le> length s \<and> prefix sub (drop i s) \<and> (\<forall>j<i. \<not> prefix sub (drop j s))"

text \<open>
  The excerpting rule in the words of the specification: the first \<^verbatim>\<open>". "\<close> decides
  whenever it lies before the budget of 220 characters.
\<close>

definition spec_first_sentence :: "pystr option \<Rightarrow> pystr" where
  "spec_first_sentence text =
     (case text of
        None \<Rightarrow> []
      | Some t \<Rightarrow>
          if t = [] then []
          else
            let s = collapse_whitespace t
            in case first_occurrence (lit ''. '') s of
                 Some dot \<Rightarrow> if dot < 220 then take (dot + 1) s else take 220 s
               | None \<Rightarrow> take 220 s)"

section \<open>The news fetcher\<close>

definition NEWS_LIMIT :: nat where "NEWS_LIMIT = 12"
definition NEWS_PER_SOURCE :: nat where "NEWS_PER_SOURCE = 5"

text \<open>
  A feed of \<^verbatim>\<open>rss_sources.yaml\<close>, an entry as \<^verbatim>\<open>feedparser\<close> returns it (a dictionary in
  which each of the four keys may be missing), and an item of the result.
\<close>

record feed =
  feed_name :: pystr
  feed_url :: pystr

record entry =
  entry_title :: "pystr option"
  entry_link :: "pystr option"
  entry_summary :: "pystr option"
  entry_description :: "pystr option"

record news_item =
  title :: pystr
  link :: pystr
  source :: pystr
  summary :: pystr

text \<open>\<^verbatim>\<open>e.get("summary", "") or e.get("description", "")\<close>\<close>

definition entry_summary_text :: "entry \<Rightarrow> pystr" where
  "entry_summary_text e =
     (let s = dict_get (entry_summary e) [] in
      if s \<noteq> [] then s else dict_get (entry_description e) [])"

text \<open>
  The inner loop over the entries of one feed, with the list \<open>items\<close> and the counter
  \<open>count\<close> as its state:
  \<^verbatim>\<open>
  for e in parsed.entries:
      if count >= NEWS_PER_SOURCE:
          break
      title = e.get("title", "")
      link = e.get("link", "")
      summary = e.get("summary", "") or e.get("description", "")
      source = feed["name"]
      if not title or not link:
          continue
      items.append({"title": title.strip(), "link": link.strip(), "source": source,
                    "summary": safe_first_sentence(summary)})
      count += 1
  \<close>
\<close>

fun feed_loop :: "pystr \<Rightarrow> entry list \<Rightarrow> news_item list \<Rightarrow> nat \<Rightarrow> news_item list" where
  "feed_loop src [] items count = items"
| "feed_loop src (e # es) items count =
     (if count \<ge> NEWS_PER_SOURCE then items
      else
        let title = dict_get (entry_title e) [];
            link = dict_get (entry_link e) [];
            summary = entry_summary_text e
        in if title = [] \<or> link = [] then feed_loop src es items count
           else feed_loop src es
                  (items @ [\<lparr> title = py_strip title, link = py_strip link, source = src,
                              summary = safe_first_sentence (Some summary) 220 \<rparr>])
                  (count + 1))"

text \<open>
  The outer loop. \<open>parse\<close> stands for \<^verbatim>\<open>feedparser.parse\<close>: the entries of the feed at a
  URL, or the exception it raised, which the \<^verbatim>\<open>try\<close> around the loop body turns into a
  warning and an unchanged list.
\<close>

fun collect_feeds ::
  "(pystr \<Rightarrow> exn + entry list) \<Rightarrow> feed list \<Rightarrow> news_item list \<Rightarrow> news_item list" where
  "collect_feeds parse [] items = items"
| "collect_feeds parse (f # fs) items =
     (case parse (feed_url f) of
        Inl err \<Rightarrow> collect_feeds parse fs items
      | Inr entries \<Rightarrow> collect_feeds parse fs (feed_loop (feed_name f) entries items 0))"

text \<open>
  The removal of duplicates, with the set \<open>seen\<close> and the list \<open>dedup\<close> as its state.
  \<open>lower\<close> stands for \<^verbatim>\<open>str.lower\<close>, whose Unicode tables are not part of the repository.
  \<^verbatim>\<open>
  for it in items:
      key = it["title"].lower()
      if key in seen:
          continue
      seen.add(key)
      dedup.append(it)
  return dedup[:NEWS_LIMIT]
  \<close>
\<close>

fun dedup_loop ::
  "(pystr \<Rightarrow> pystr) \<Rightarrow> news_item list \<Rightarrow> pystr set \<Rightarrow> news_item list \<Rightarrow> news_item list" where
  "dedup_loop lower [] seen dedup = dedup"
| "dedup_loop lower (it # its) seen dedup =
     (let key = lower (title it)
      in if key \<in> seen then dedup_loop lower its seen dedup
         else dedup_loop lower its (insert key seen) (dedup @ [it]))"

definition fetch_news ::
  "(pystr \<Rightarrow> pystr) \<Rightarrow> (pystr \<Rightarrow> exn + entry list) \<Rightarrow> feed list \<Rightarrow> news_item list" where
  "fetch_news lower parse feeds =
     (let items = collect_feeds parse feeds [];
          dedup = dedup_loop lower items {} []
      in take NEWS_LIMIT dedup)"

text \<open>
  Names for what the claims speak about: the key under which titles are compared, an
  entry that has both a title and a link, the item built from it, and what one feed adds
  to the collected list.
\<close>

definition title_key :: "(pystr \<Rightarrow> pystr) \<Rightarrow> news_item \<Rightarrow> pystr" where
  "title_key lower it = lower (title it)"

definition entry_valid :: "entry \<Rightarrow> bool" where
  "entry_valid e \<longleftrightarrow> dict_get (entry_title e) [] \<noteq> [] \<and> dict_get (entry_link e) [] \<noteq> []"

definition make_item :: "pystr \<Rightarrow> entry \<Rightarrow> news_item" where
  "make_item src e =
     \<lparr> title = py_strip (dict_get (entry_title e) []),
       link = py_strip (dict_get (entry_link e) []),
       source = src,
       summary = safe_first_sentence (Some (entry_summary_text e)) 220 \<rparr>"

definition contribution :: "(pystr \<Rightarrow> exn + entry list) \<Rightarrow> feed \<Rightarrow> news_item list" where
  "contribution parse f =
     (case parse (feed_url f) of
        Inl err \<Rightarrow> []
      | Inr entries \<Rightarrow>
          take NEWS_PER_SOURCE (map (make_item (feed_name f)) (filter entry_valid entries)))"

subsection \<open>Sample feeds\<close>

text \<open>
  Two feeds for the examples below. The first offers an entry without title, one without
  link and six complete ones; the second repeats a title of the first in capitals.
  \<open>ascii_lower\<close> is \<^verbatim>\<open>str.lower\<close> on ASCII text.
\<close>

definition ascii_lower :: "pystr \<Rightarrow> pystr" where
  "ascii_lower s = map (\<lambda>c. if 65 \<le> c \<and> c \<le> 90 then c + 32 else c) s"

definition sample_entry :: "string \<Rightarrow> entry" where
  "sample_entry t =
     \<lparr> entry_title = Some (lit t), entry_link = Some (lit ''u''),
       entry_summary = None, entry_description = None \<rparr>"

definition sample_item :: "string \<Rightarrow> string \<Rightarrow> news_item" where
  "sample_item src t = \<lparr> title = lit t, link = lit ''u'', source = lit src, summary = [] \<rparr>"

definition sample_entries :: "entry list" where
  "sample_entries =
     [ (sample_entry ''x'') \<lparr> entry_title := None \<rparr>,
       (sample_entry ''y'') \<lparr> entry_link := Some [] \<rparr>,
       sample_entry ''Fed'', sample_entry ''b'', sample_entry ''c'', sample_entry ''d'',
       sample_entry ''e'', sample_entry ''f'' ]"

definition sample_feeds :: "feed list" where
  "sample_feeds =
     [ \<lparr> feed_name = lit ''A'', feed_url = lit ''a'' \<rparr>,
       \<lparr> feed_name = lit ''B'', feed_url = lit ''b'' \<rparr> ]"

definition sample_parse :: "pystr \<Rightarrow> exn + entry list" where
  "sample_parse u =
     (if u = lit ''a'' then Inr sample_entries
      else if u = lit ''b'' then Inr [sample_entry ''FED'', sample_entry ''g'']
      else Inl FeedError)"

subsection \<open>Lower case and case folding of Latin-1 text\<close>

text \<open>
  On text whose code points are all below 256, \<^verbatim>\<open>str.lower\<close> moves \<open>A..Z\<close> and
  U+00C0..U+00DE (but for the multiplication sign U+00D7) to the code point 32 higher and
  leaves every other character as it is, the sharp s U+00DF among them.
  \<^verbatim>\<open>str.casefold\<close> does the same and, moreover, turns the sharp s into \<open>ss\<close> and the micro
  sign U+00B5 into U+03BC. The two definitions are used on such text only; they leave code
  points from 256 on unchanged, where Python consults its Unicode tables.
  The sample feed offers the titles \<^verbatim>\<open>Stra\<close>U+00DF\<^verbatim>\<open>e\<close> and \<^verbatim>\<open>STRASSE\<close>.
\<close>

definition lower_latin1 :: "pystr \<Rightarrow> pystr" where
  "lower_latin1 s =
     map (\<lambda>c. if (65 \<le> c \<and> c \<le> 90) \<or> (192 \<le> c \<and> c \<le> 222 \<and> c \<noteq> 215) then c + 32 else c) s"

definition casefold_latin1 :: "pystr \<Rightarrow> pystr" where
  "casefold_latin1 s =
     concat (map (\<lambda>c. if c = 223 then [115, 115]
                       else if c = 181 then [956]
                       else if (65 \<le> c \<and> c \<le> 90) \<or> (192 \<le> c \<and> c \<le> 222 \<and> c \<noteq> 215)
                       then [c + 32]
                       else [c]) s)"

definition strasse :: pystr where
  "strasse = [83, 116, 114, 97, 223, 101]"

definition strasse_feeds :: "feed list" where
  "strasse_feeds = [ \<lparr> feed_name = lit ''A'', feed_url = lit ''s'' \<rparr> ]"

definition strasse_parse :: "pystr \<Rightarrow> exn + entry list" where
  "strasse_parse u =
     (if u = lit ''s''
      then Inr [ (sample_entry ''x'') \<lparr> entry_title := Some strasse \<rparr>, sample_entry ''STRASSE'' ]
      else Inl FeedError)"

section \<open>Floats\<close>

text \<open>
  A Python \<^verbatim>\<open>float\<close> is a binary64 value: a finite number (\<open>Fin q\<close>, with \<open>Fin 0\<close> for
  \<^verbatim>\<open>+0.0\<close>), \<^verbatim>\<open>-0.0\<close>, an infinity or NaN. How an exact nonzero result is rounded to the
  nearest binary64 value is not reconstructed here: it is the parameter \<open>rnd\<close> of every
  operation that rounds, and what is proved holds for every \<open>rnd\<close>. The special values,
  the sign of a zero result and the exceptions are those of IEEE 754 and of Python.
\<close>

datatype pyfloat = Fin real | NegZero | PInf | NInf | NaN



















section \<open>The percent change\<close>

text \<open>
  The values that \<open>pct\<close> is applied to: \<^verbatim>\<open>None\<close>, a float, an integer or a string.
  \<open>py_truediv\<close> is \<^verbatim>\<open>a / b\<close>: the quotient of two numbers as a float, \<^verbatim>\<open>ZeroDivisionError\<close>
  for a zero divisor, \<^verbatim>\<open>OverflowError\<close> for an integer (or a quotient of integers) beyond
  the floats, \<^verbatim>\<open>TypeError\<close> for any other pair.
\<close>

datatype pyval = PyNone | PyFloat pyfloat | PyInt int | PyStr pystr




section \<open>The price fetcher\<close>
















section \<open>The cell of the percent change in the rendered table\<close>






subsection \<open>A sample download\<close>





section \<open>Properties of the string methods\<close>

lemma py_strip_clean:
  assumes "s = [] \<or> (\<not> isspace (hd s) \<and> \<not> isspace (last s))"
  shows "py_strip s = s"
proof (cases s)
  case Nil
  then show ?thesis by (simp add: py_strip_def)
next
  case (Cons c cs)
  with assms have h: "\<not> isspace c" and l: "\<not> isspace (last s)" by auto
  from Cons h have 1: "dropWhile isspace s = s" by simp
  from Cons have "rev s = last s # rev (butlast s)"
    by (metis append_butlast_last_id list.distinct(1) rev_eq_Cons_iff rev_rev_ident)
  with l have 2: "dropWhile isspace (rev s) = rev s"
    by (metis dropWhile.simps(2))
  show ?thesis by (simp add: py_strip_def 1 2)
qed

lemma py_replace_absent:
  "old \<noteq> [] \<Longrightarrow> \<not> sublist old s \<Longrightarrow> py_replace old new s = s"
proof (induction s)
  case Nil
  then show ?case by simp
next
  case (Cons c cs)
  from Cons.prems have np: "\<not> prefix old (c # cs)" and "\<not> sublist old cs"
    by (auto simp: sublist_Cons_right)
  with Cons.IH Cons.prems have "py_replace old new cs = cs" by simp
  with np Cons.prems show ?case by simp
qed

lemma py_find_from_first_occurrence:
  "py_find_from sub s k = (case first_occurrence sub s of None \<Rightarrow> - 1 | Some i \<Rightarrow> int (k + i))"
  by (induction s arbitrary: k) (auto split: option.splits)

lemma py_find_first_occurrence:
  "py_find s sub = (case first_occurrence sub s of None \<Rightarrow> - 1 | Some i \<Rightarrow> int i)"
  by (simp add: py_find_def py_find_from_first_occurrence [of sub s 0] split: option.splits)

lemma first_at_unique: "first_at sub s i \<Longrightarrow> first_at sub s j \<Longrightarrow> i = j"
  unfolding first_at_def by (meson linorder_neqE_nat)

lemma first_occurrence_first_at:
  "first_occurrence sub s = Some i \<Longrightarrow> first_at sub s i"
proof (induction s arbitrary: i)
  case Nil
  then show ?case by (auto simp: first_at_def split: if_splits)
next
  case (Cons c cs)
  show ?case
  proof (cases "prefix sub (c # cs)")
    case True
    with Cons.prems show ?thesis by (simp add: first_at_def)
  next
    case False
    with Cons.prems obtain i' where i': "first_occurrence sub cs = Some i'" "i = Suc i'"
      by auto
    from Cons.IH [OF i'(1)] have fa: "first_at sub cs i'" .
    have "\<forall>j<Suc i'. \<not> prefix sub (drop j (c # cs))"
    proof (intro allI impI)
      fix j assume "j < Suc i'"
      then show "\<not> prefix sub (drop j (c # cs))"
        using False fa by (cases j) (auto simp: first_at_def)
    qed
    with fa i'(2) show ?thesis by (simp add: first_at_def)
  qed
qed

lemma first_occurrence_None:
  "first_occurrence sub s = None \<Longrightarrow> \<not> sublist sub s"
proof (induction s)
  case Nil
  then show ?case by (auto split: if_splits)
next
  case (Cons c cs)
  then show ?case by (auto simp: sublist_Cons_right split: if_splits)
qed

lemma first_at_sublist: "first_at sub s i \<Longrightarrow> sublist sub s"
  unfolding first_at_def sublist_def prefix_def
  by (metis append_take_drop_id)

lemma first_occurrence_Some_iff:
  "first_occurrence sub s = Some i \<longleftrightarrow> first_at sub s i"
proof
  assume "first_occurrence sub s = Some i"
  then show "first_at sub s i" by (rule first_occurrence_first_at)
next
  assume fa: "first_at sub s i"
  show "first_occurrence sub s = Some i"
  proof (cases "first_occurrence sub s")
    case None
    with first_occurrence_None first_at_sublist [OF fa] show ?thesis by blast
  next
    case (Some j)
    then have "first_at sub s j" by (rule first_occurrence_first_at)
    with fa have "i = j" by (rule first_at_unique)
    with Some show ?thesis by simp
  qed
qed

lemma first_occurrence_None_iff:
  "first_occurrence sub s = None \<longleftrightarrow> \<not> sublist sub s"
proof
  assume "first_occurrence sub s = None"
  then show "\<not> sublist sub s" by (rule first_occurrence_None)
next
  assume ns: "\<not> sublist sub s"
  show "first_occurrence sub s = None"
  proof (cases "first_occurrence sub s")
    case None
    then show ?thesis .
  next
    case (Some j)
    then have "first_at sub s j" by (rule first_occurrence_first_at)
    with ns first_at_sublist show ?thesis by blast
  qed
qed

section \<open>The excerpting rule\<close>

lemma safe_first_sentence_unfold:
  "safe_first_sentence text 220 =
     (case text of
        None \<Rightarrow> []
      | Some t \<Rightarrow>
          if t = [] then []
          else
            let s = collapse_whitespace t
            in case first_occurrence (lit ''. '') s of
                 Some dot \<Rightarrow> if 0 < dot \<and> dot < 220 then take (dot + 1) s else take 220 s
               | None \<Rightarrow> take 220 s)"
proof -
  have tt: "take 220 (take (Suc dot) s) = take (Suc dot) s" if "dot < 220"
    for dot and s :: pystr
    using that by (simp add: min_absorb2)
  show ?thesis
    by (simp add: safe_first_sentence_def collapse_whitespace_def py_find_first_occurrence
        py_slice_to_def Let_def nat_add_distrib tt split: option.splits)
qed

lemma safe_first_sentence_clean:
  assumes "length s \<le> 220"
    and "\<not> sublist (lit ''. '') s"
    and "s = [] \<or> (\<not> isspace (hd s) \<and> \<not> isspace (last s))"
    and "\<not> sublist (lit ''\<newline>'') s"
    and "\<not> sublist (lit ''  '') s"
  shows "safe_first_sentence (Some s) 220 = s"
proof -
  have 1: "py_strip s = s" using assms(3) by (rule py_strip_clean)
  have 2: "py_replace (lit ''\<newline>'') (lit '' '') s = s"
    using assms(4) by (intro py_replace_absent) (simp_all add: lit_def)
  have 3: "py_replace (lit ''  '') (lit '' '') s = s"
    using assms(5) by (intro py_replace_absent) (simp_all add: lit_def)
  have 4: "first_occurrence (lit ''. '') s = None"
    using assms(2) by (simp add: first_occurrence_None_iff)
  show ?thesis
    using assms(1) by (simp add: safe_first_sentence_unfold collapse_whitespace_def 1 2 3 4)
qed

text \<open>
  C2, as the specification words it, fails: the code asks for \<^verbatim>\<open>0 < dot\<close>, so a \<^verbatim>\<open>". "\<close>
  at the very start of the cleaned text does not end the excerpt. For the text
  \<^verbatim>\<open>". a"\<close> the code returns the text unchanged, where the rule as stated cuts after the
  period.
\<close>

theorem safe_first_sentence_leading_period:
  "safe_first_sentence (Some (lit ''. a'')) 220 = lit ''. a'' \<and>
   spec_first_sentence (Some (lit ''. a'')) = lit ''.'' \<and>
   safe_first_sentence (Some (lit ''. a'')) 220 \<noteq> spec_first_sentence (Some (lit ''. a''))"
  by (simp add: safe_first_sentence_def spec_first_sentence_def collapse_whitespace_def
      lit_def py_strip_def isspace_def py_find_def py_slice_to_def)

text \<open>
  C2, amended: a missing or empty text gives the empty string. Otherwise the text is
  stripped, every newline becomes a space and doubled spaces are replaced by single ones in
  one pass; if the first \<^verbatim>\<open>". "\<close> of the result starts at an index strictly between 0 and
  220, the excerpt ends with that period; in every other case (no \<^verbatim>\<open>". "\<close>, one at index
  0, or the first one at index 220 or later) the excerpt is the first 220 characters.
\<close>

theorem safe_first_sentence_rule:
  "safe_first_sentence text 220 =
     (case text of
        None \<Rightarrow> []
      | Some t \<Rightarrow>
          if t = [] then []
          else
            let s = collapse_whitespace t
            in case first_occurrence (lit ''. '') s of
                 Some dot \<Rightarrow> if 0 < dot \<and> dot < 220 then take (dot + 1) s else take 220 s
               | None \<Rightarrow> take 220 s)"
  by (rule safe_first_sentence_unfold)

theorem safe_first_sentence_rule_witness:
  "safe_first_sentence
     (Some (lit ''Stocks rose today. Analysts are optimistic about next quarter and beyond.''))
     220 = lit ''Stocks rose today.''"
  using safe_first_sentence_rule
    [of "Some (lit ''Stocks rose today. Analysts are optimistic about next quarter and beyond.'')"]
  by (simp add: collapse_whitespace_def lit_def py_strip_def isspace_def)

text \<open>
  C8: on a text of at most 220 characters that holds a single sentence (no \<^verbatim>\<open>". "\<close>),
  neither starts nor ends with whitespace and has no newline and no doubled space,
  excerpting twice gives what excerpting once gives (the text itself).
\<close>

theorem safe_first_sentence_idempotent:
  assumes "length s \<le> 220"
    and "\<not> sublist (lit ''. '') s"
    and "s = [] \<or> (\<not> isspace (hd s) \<and> \<not> isspace (last s))"
    and "\<not> sublist (lit ''\<newline>'') s"
    and "\<not> sublist (lit ''  '') s"
  shows "safe_first_sentence (Some (safe_first_sentence (Some s) 220)) 220 =
         safe_first_sentence (Some s) 220"
  using assms by (simp add: safe_first_sentence_clean)

theorem safe_first_sentence_idempotent_witness:
  "length (lit ''Stocks rose.'') \<le> 220 \<and>
   \<not> sublist (lit ''. '') (lit ''Stocks rose.'') \<and>
   \<not> isspace (hd (lit ''Stocks rose.'')) \<and> \<not> isspace (last (lit ''Stocks rose.'')) \<and>
   \<not> sublist (lit ''\<newline>'') (lit ''Stocks rose.'') \<and>
   \<not> sublist (lit ''  '') (lit ''Stocks rose.'') \<and>
   safe_first_sentence (Some (safe_first_sentence (Some (lit ''Stocks rose.'')) 220)) 220 =
   safe_first_sentence (Some (lit ''Stocks rose.'')) 220"
proof -
  have h: "length (lit ''Stocks rose.'') \<le> 220"
    "\<not> sublist (lit ''. '') (lit ''Stocks rose.'')"
    "\<not> isspace (hd (lit ''Stocks rose.'')) \<and> \<not> isspace (last (lit ''Stocks rose.''))"
    "\<not> sublist (lit ''\<newline>'') (lit ''Stocks rose.'')"
    "\<not> sublist (lit ''  '') (lit ''Stocks rose.'')"
    by (simp_all add: lit_def isspace_def sublist_code)
  from h(3) have c: "lit ''Stocks rose.'' = [] \<or>
      (\<not> isspace (hd (lit ''Stocks rose.'')) \<and> \<not> isspace (last (lit ''Stocks rose.'')))"
    by (rule disjI2)
  from safe_first_sentence_idempotent [OF h(1) h(2) c h(4) h(5)] h show ?thesis by blast
qed


section \<open>The news fetcher: what the loops compute\<close>

lemma feed_loop_eq:
  "feed_loop src es items count =
     items @ take (NEWS_PER_SOURCE - count) (map (make_item src) (filter entry_valid es))"
proof (induction es arbitrary: items count)
  case Nil
  then show ?case by simp
next
  case (Cons e es)
  show ?case
  proof (cases "count \<ge> NEWS_PER_SOURCE")
    case True
    then show ?thesis by simp
  next
    case False
    then have d: "NEWS_PER_SOURCE - count = Suc (NEWS_PER_SOURCE - Suc count)" by simp
    show ?thesis
    proof (cases "entry_valid e")
      case True
      then have "dict_get (entry_title e) [] \<noteq> [] \<and> dict_get (entry_link e) [] \<noteq> []"
        by (simp add: entry_valid_def)
      with False True show ?thesis
        by (simp add: Cons.IH Let_def make_item_def d)
    next
      case nv: False
      then have "dict_get (entry_title e) [] = [] \<or> dict_get (entry_link e) [] = []"
        by (auto simp: entry_valid_def)
      with False nv show ?thesis
        by (simp add: Cons.IH Let_def)
    qed
  qed
qed

lemma collect_feeds_eq:
  "collect_feeds parse fs items = items @ concat (map (contribution parse) fs)"
  by (induction fs arbitrary: items) (auto simp: contribution_def feed_loop_eq split: sum.splits)

lemma dedup_loop_distinct:
  "seen = title_key lower ` set dedup \<Longrightarrow> distinct (map (title_key lower) dedup) \<Longrightarrow>
   distinct (map (title_key lower) (dedup_loop lower its seen dedup))"
proof (induction its arbitrary: seen dedup)
  case Nil
  then show ?case by simp
next
  case (Cons it its)
  show ?case
  proof (cases "lower (title it) \<in> seen")
    case True
    with Cons show ?thesis by simp
  next
    case False
    have k: "title_key lower it = lower (title it)" by (simp add: title_key_def)
    have "insert (lower (title it)) seen = title_key lower ` set (dedup @ [it])"
      using Cons.prems(1) by (simp add: k)
    moreover have "distinct (map (title_key lower) (dedup @ [it]))"
      using Cons.prems False by (simp add: k)
    ultimately have "distinct (map (title_key lower)
        (dedup_loop lower its (insert (lower (title it)) seen) (dedup @ [it])))"
      by (rule Cons.IH)
    with False show ?thesis by simp
  qed
qed

lemma dedup_loop_first:
  "x \<in> set (dedup_loop lower its seen dedup) \<Longrightarrow>
   x \<in> set dedup \<or>
   (title_key lower x \<notin> seen \<and> find (\<lambda>y. title_key lower y = title_key lower x) its = Some x)"
proof (induction its arbitrary: seen dedup)
  case Nil
  then show ?case by simp
next
  case (Cons it its)
  let ?P = "\<lambda>y. title_key lower y = title_key lower x"
  have k: "title_key lower it = lower (title it)" by (simp add: title_key_def)
  show ?case
  proof (cases "lower (title it) \<in> seen")
    case True
    with Cons.prems have "x \<in> set (dedup_loop lower its seen dedup)" by simp
    from Cons.IH [OF this]
    consider "x \<in> set dedup" | "title_key lower x \<notin> seen" "find ?P its = Some x"
      by blast
    then show ?thesis
    proof cases
      case 1
      then show ?thesis by simp
    next
      case 2
      with True have "\<not> ?P it" by (auto simp: k)
      with 2 show ?thesis by simp
    qed
  next
    case False
    with Cons.prems
    have "x \<in> set (dedup_loop lower its (insert (lower (title it)) seen) (dedup @ [it]))"
      by simp
    from Cons.IH [OF this]
    consider "x \<in> set dedup" | "x = it"
      | "title_key lower x \<notin> insert (lower (title it)) seen" "find ?P its = Some x"
      by auto
    then show ?thesis
    proof cases
      case 1
      then show ?thesis by simp
    next
      case 2
      with False show ?thesis by (simp add: k)
    next
      case 3
      then have "\<not> ?P it" by (auto simp: k)
      with 3 show ?thesis by simp
    qed
  qed
qed

lemma dedup_loop_keys:
  "seen = title_key lower ` set dedup \<Longrightarrow>
   title_key lower ` set (dedup_loop lower its seen dedup) = seen \<union> title_key lower ` set its"
proof (induction its arbitrary: seen dedup)
  case Nil
  then show ?case by simp
next
  case (Cons it its)
  have k: "title_key lower it = lower (title it)" by (simp add: title_key_def)
  show ?case
  proof (cases "lower (title it) \<in> seen")
    case True
    have "title_key lower ` set (dedup_loop lower its seen dedup) =
            seen \<union> title_key lower ` set its"
      using Cons.prems by (rule Cons.IH)
    with True show ?thesis by (auto simp: k)
  next
    case False
    have "insert (lower (title it)) seen = title_key lower ` set (dedup @ [it])"
      using Cons.prems by (simp add: k)
    then have "title_key lower `
        set (dedup_loop lower its (insert (lower (title it)) seen) (dedup @ [it])) =
            insert (lower (title it)) seen \<union> title_key lower ` set its"
      by (rule Cons.IH)
    with False show ?thesis by (simp add: k)
  qed
qed

lemma dedup_loop_filter_length:
  "length (filter P (dedup_loop lower its seen dedup)) \<le>
   length (filter P dedup) + length (filter P its)"
proof (induction its arbitrary: seen dedup)
  case Nil
  then show ?case by simp
next
  case (Cons it its)
  show ?case
  proof (cases "lower (title it) \<in> seen")
    case True
    then show ?thesis using Cons.IH [of seen dedup] by simp
  next
    case False
    then show ?thesis
      using Cons.IH [of "insert (lower (title it)) seen" "dedup @ [it]"]
      by (cases "P it") simp_all
  qed
qed

lemma filter_take_length: "length (filter P (take n xs)) \<le> length (filter P xs)"
proof -
  have "length (filter P xs) = length (filter P (take n xs)) + length (filter P (drop n xs))"
    by (metis append_take_drop_id filter_append length_append)
  then show ?thesis by simp
qed

lemma contribution_source:
  "it \<in> set (contribution parse f) \<Longrightarrow> source it = feed_name f"
  by (auto simp: contribution_def make_item_def split: sum.splits dest!: in_set_takeD)

lemma contribution_length: "length (contribution parse f) \<le> NEWS_PER_SOURCE"
  by (simp add: contribution_def split: sum.splits)

lemma filter_other_feeds:
  "n \<notin> feed_name ` set fs \<Longrightarrow>
   filter (\<lambda>it. source it = n) (concat (map (contribution parse) fs)) = []"
  by (induction fs) (auto simp: filter_empty_conv dest: contribution_source)

lemma per_source_collected:
  "distinct (map feed_name fs) \<Longrightarrow>
   length (filter (\<lambda>it. source it = n) (concat (map (contribution parse) fs)))
     \<le> NEWS_PER_SOURCE"
proof (induction fs)
  case Nil
  then show ?case by simp
next
  case (Cons g gs)
  show ?case
  proof (cases "feed_name g = n")
    case True
    with Cons.prems have "n \<notin> feed_name ` set gs" by auto
    then have "filter (\<lambda>it. source it = n) (concat (map (contribution parse) gs)) = []"
      by (rule filter_other_feeds)
    moreover have "length (filter (\<lambda>it. source it = n) (contribution parse g))
        \<le> NEWS_PER_SOURCE"
      using contribution_length [of parse g]
        length_filter_le [of "\<lambda>it. source it = n" "contribution parse g"]
      by linarith
    ultimately show ?thesis by simp
  next
    case False
    then have "filter (\<lambda>it. source it = n) (contribution parse g) = []"
      by (auto simp: filter_empty_conv dest: contribution_source)
    with Cons show ?thesis by simp
  qed
qed

lemmas sample_defs = sample_feeds_def sample_parse_def sample_entries_def sample_entry_def
  sample_item_def ascii_lower_def lit_def dict_get_def entry_summary_text_def
  NEWS_PER_SOURCE_def NEWS_LIMIT_def py_strip_def isspace_def safe_first_sentence_def Let_def

lemma collect_sample:
  "collect_feeds sample_parse sample_feeds [] =
     [sample_item ''A'' ''Fed'', sample_item ''A'' ''b'', sample_item ''A'' ''c'',
      sample_item ''A'' ''d'', sample_item ''A'' ''e'', sample_item ''B'' ''FED'',
      sample_item ''B'' ''g'']"
  by (simp add: sample_defs)

lemma fetch_news_sample:
  "fetch_news ascii_lower sample_parse sample_feeds =
     [sample_item ''A'' ''Fed'', sample_item ''A'' ''b'', sample_item ''A'' ''c'',
      sample_item ''A'' ''d'', sample_item ''A'' ''e'', sample_item ''B'' ''g'']"
  by (simp add: fetch_news_def collect_sample) (simp add: sample_defs)

section \<open>The news fetcher: claims\<close>

text \<open>
  C3, as the specification words it, fails: the key of a title is \<^verbatim>\<open>title.lower()\<close>, and
  two titles that are equal after case folding can have different lower-case forms. A
  feed that offers \<^verbatim>\<open>Stra\<close>U+00DF\<^verbatim>\<open>e\<close> and then \<^verbatim>\<open>STRASSE\<close> (lower case \<^verbatim>\<open>stra\<close>U+00DF\<^verbatim>\<open>e\<close>
  and \<^verbatim>\<open>strasse\<close>, both \<^verbatim>\<open>strasse\<close> after case folding) gets both into the result.
\<close>

theorem fetch_news_keeps_casefold_equal_titles:
  "fetch_news lower_latin1 strasse_parse strasse_feeds =
     [ \<lparr> title = strasse, link = lit ''u'', source = lit ''A'', summary = [] \<rparr>,
       \<lparr> title = lit ''STRASSE'', link = lit ''u'', source = lit ''A'', summary = [] \<rparr> ] \<and>
   lower_latin1 strasse \<noteq> lower_latin1 (lit ''STRASSE'') \<and>
   casefold_latin1 strasse = casefold_latin1 (lit ''STRASSE'') \<and>
   \<not> distinct (map casefold_latin1
        (map title (fetch_news lower_latin1 strasse_parse strasse_feeds)))"
proof -
  have out: "fetch_news lower_latin1 strasse_parse strasse_feeds =
     [ \<lparr> title = strasse, link = lit ''u'', source = lit ''A'', summary = [] \<rparr>,
       \<lparr> title = lit ''STRASSE'', link = lit ''u'', source = lit ''A'', summary = [] \<rparr> ]"
    by (simp add: fetch_news_def strasse_feeds_def strasse_parse_def strasse_def
        lower_latin1_def sample_defs)
  have l: "lower_latin1 strasse \<noteq> lower_latin1 (lit ''STRASSE'')"
    by (simp add: lower_latin1_def strasse_def lit_def)
  have c: "casefold_latin1 strasse = casefold_latin1 (lit ''STRASSE'')"
    by (simp add: casefold_latin1_def strasse_def lit_def)
  from out l c show ?thesis by simp
qed

text \<open>
  C3, amended: titles are compared by their \<^verbatim>\<open>str.lower\<close> forms (\<open>lower\<close>, which may be
  any function on strings). In the list that \<open>fetch_news\<close> returns no two items have the
  same lower-cased title, and every item of it is the first one with its lower-cased
  title among the items collected from the feeds in configured order. The list is the
  first \<open>NEWS_LIMIT\<close> items of the list without duplicates, in which every collected
  lower-cased title is still present.
\<close>

theorem fetch_news_dedup:
  fixes lower parse feeds
  defines "items \<equiv> collect_feeds parse feeds []"
  defines "out \<equiv> fetch_news lower parse feeds"
  shows "distinct (map (title_key lower) out) \<and>
         (\<forall>x \<in> set out. find (\<lambda>y. title_key lower y = title_key lower x) items = Some x) \<and>
         out = take NEWS_LIMIT (dedup_loop lower items {} []) \<and>
         title_key lower ` set (dedup_loop lower items {} []) = title_key lower ` set items"
proof -
  let ?D = "dedup_loop lower items {} []"
  have out: "out = take NEWS_LIMIT ?D" by (simp add: out_def fetch_news_def items_def)
  have "distinct (map (title_key lower) ?D)" by (rule dedup_loop_distinct) simp_all
  then have 1: "distinct (map (title_key lower) out)"
    unfolding out by (simp add: distinct_take take_map [symmetric])
  have 2: "\<forall>x \<in> set out. find (\<lambda>y. title_key lower y = title_key lower x) items = Some x"
  proof
    fix x assume "x \<in> set out"
    then have "x \<in> set ?D" unfolding out by (rule in_set_takeD)
    from dedup_loop_first [OF this]
    show "find (\<lambda>y. title_key lower y = title_key lower x) items = Some x"
      by simp
  qed
  have 3: "title_key lower ` set ?D = title_key lower ` set items"
    using dedup_loop_keys [of "{}" lower "[]" items] by simp
  from 1 2 out 3 show ?thesis by blast
qed

theorem fetch_news_dedup_witness:
  "fetch_news ascii_lower sample_parse sample_feeds =
     [sample_item ''A'' ''Fed'', sample_item ''A'' ''b'', sample_item ''A'' ''c'',
      sample_item ''A'' ''d'', sample_item ''A'' ''e'', sample_item ''B'' ''g''] \<and>
   sample_item ''B'' ''FED'' \<in> set (collect_feeds sample_parse sample_feeds []) \<and>
   title_key ascii_lower (sample_item ''B'' ''FED'') =
     title_key ascii_lower (sample_item ''A'' ''Fed'') \<and>
   distinct (map (title_key ascii_lower) (fetch_news ascii_lower sample_parse sample_feeds)) \<and>
   find (\<lambda>y. title_key ascii_lower y = title_key ascii_lower (sample_item ''A'' ''Fed''))
     (collect_feeds sample_parse sample_feeds []) = Some (sample_item ''A'' ''Fed'')"
proof -
  have k: "title_key ascii_lower (sample_item ''B'' ''FED'') =
      title_key ascii_lower (sample_item ''A'' ''Fed'')"
    by (simp add: title_key_def sample_defs)
  have m: "sample_item ''B'' ''FED'' \<in> set (collect_feeds sample_parse sample_feeds [])"
    by (simp add: collect_sample)
  have "sample_item ''A'' ''Fed'' \<in> set (fetch_news ascii_lower sample_parse sample_feeds)"
    by (simp add: fetch_news_sample)
  with fetch_news_dedup [of ascii_lower sample_parse sample_feeds] k m fetch_news_sample
  show ?thesis by blast
qed

text \<open>
  C4: the list that \<open>fetch_news\<close> returns has at most \<open>NEWS_LIMIT = 12\<close> items. One pass
  over the entries of a feed appends at most \<open>NEWS_PER_SOURCE = 5\<close> items to the collected
  list, however many entries the feed offers; and when the configured feeds have distinct
  names, at most 5 items of the returned list carry the name of any one feed.
\<close>

theorem fetch_news_caps:
  "length (fetch_news lower parse feeds) \<le> 12 \<and>
   (\<forall>src es items. \<exists>new. feed_loop src es items 0 = items @ new \<and> length new \<le> 5) \<and>
   (distinct (map feed_name feeds) \<longrightarrow>
      (\<forall>f \<in> set feeds.
         length (filter (\<lambda>it. source it = feed_name f) (fetch_news lower parse feeds)) \<le> 5))"
proof -
  have 1: "length (fetch_news lower parse feeds) \<le> 12"
    by (simp add: fetch_news_def NEWS_LIMIT_def)
  have 2: "\<forall>src es items. \<exists>new. feed_loop src es items 0 = items @ new \<and> length new \<le> 5"
    by (simp add: feed_loop_eq NEWS_PER_SOURCE_def)
  have 3: "length (filter (\<lambda>it. source it = n) (fetch_news lower parse feeds)) \<le> 5"
    if d: "distinct (map feed_name feeds)" for n
  proof -
    let ?P = "\<lambda>it. source it = n"
    let ?items = "collect_feeds parse feeds []"
    have "length (filter ?P (fetch_news lower parse feeds))
            \<le> length (filter ?P (dedup_loop lower ?items {} []))"
      by (simp add: fetch_news_def filter_take_length)
    also have "\<dots> \<le> length (filter ?P ?items)"
      using dedup_loop_filter_length [of ?P lower ?items "{}" "[]"] by simp
    also have "\<dots> \<le> NEWS_PER_SOURCE"
      using per_source_collected [OF d] by (simp add: collect_feeds_eq)
    finally show ?thesis by (simp add: NEWS_PER_SOURCE_def)
  qed
  from 1 2 3 show ?thesis by blast
qed

theorem fetch_news_caps_witness:
  "distinct (map feed_name sample_feeds) \<and>
   \<lparr> feed_name = lit ''A'', feed_url = lit ''a'' \<rparr> \<in> set sample_feeds \<and>
   length (filter entry_valid sample_entries) = 6 \<and>
   length (fetch_news ascii_lower sample_parse sample_feeds) \<le> 12 \<and>
   length (filter (\<lambda>it. source it = lit ''A'')
     (fetch_news ascii_lower sample_parse sample_feeds)) = 5"
proof -
  have d: "distinct (map feed_name sample_feeds)"
    and m: "\<lparr> feed_name = lit ''A'', feed_url = lit ''a'' \<rparr> \<in> set sample_feeds"
    by (simp_all add: sample_feeds_def lit_def)
  have v: "length (filter entry_valid sample_entries) = 6"
    by (simp add: entry_valid_def sample_entries_def sample_entry_def dict_get_def lit_def)
  have n: "length (filter (\<lambda>it. source it = lit ''A'')
      (fetch_news ascii_lower sample_parse sample_feeds)) = 5"
    by (simp add: fetch_news_sample) (simp add: sample_item_def lit_def)
  from fetch_news_caps [of ascii_lower sample_parse sample_feeds] d m v n
  show ?thesis by blast
qed

text \<open>
  C10: an entry without title or without link leaves the counter of its feed unchanged.
  One pass over the entries of a feed appends the items of the first \<open>NEWS_PER_SOURCE\<close>
  entries that have both, wherever they stand among the entries: as many items as there
  are such entries, up to the quota.
\<close>

theorem feed_loop_counts_accepted:
  "feed_loop src es items 0 =
     items @ take NEWS_PER_SOURCE (map (make_item src) (filter entry_valid es)) \<and>
   length (feed_loop src es items 0) =
     length items + min NEWS_PER_SOURCE (length (filter entry_valid es))"
  by (simp add: feed_loop_eq)

theorem feed_loop_counts_accepted_witness:
  "\<not> entry_valid (sample_entries ! 0) \<and> \<not> entry_valid (sample_entries ! 1) \<and>
   feed_loop (lit ''A'') sample_entries [] 0 =
     [sample_item ''A'' ''Fed'', sample_item ''A'' ''b'', sample_item ''A'' ''c'',
      sample_item ''A'' ''d'', sample_item ''A'' ''e'']"
  using feed_loop_counts_accepted [of "lit ''A''" sample_entries "[]"]
  by (simp add: entry_valid_def make_item_def sample_defs)

section \<open>The price fetcher: what the loop computes\<close>



























section \<open>The price fetcher and the renderer: claims\<close>













end
